theory Spec2Isabelle
  imports Main "HOL-Library.Word"
begin

section \<open>Identity names: src/keystore.cpp, lines 16-115\<close>

text \<open>
  Byte strings are \<open>char list\<close> (an Isabelle \<open>char\<close> is one byte). A \<open>std::string\<close> is
  a byte string that may hold NUL bytes. The blobs \<open>uint256\<close> and \<open>uint160\<close> are byte
  arrays (32 and 20 bytes); \<open>begin()\<close> .. \<open>end()\<close> of a blob is the byte string itself.
  Loop counters of type \<open>int\<close> are natural numbers here: names are taken to be shorter
  than \<open>2^31\<close> bytes.
\<close>

type_synonym bytes = string
type_synonym uint256 = bytes
type_synonym uint160 = bytes

text \<open>
  What keystore.cpp uses of hash.h and komodo_defs.h, which are not part of the sources:
  \<open>Hash(b, e)\<close>, the 256-bit digest of a byte range, \<open>Hash(b1, e1, b2, e2)\<close>, the same
  digest of the two ranges one after the other (\<open>Hash (x @ y)\<close> here), \<open>Hash160(b, e)\<close>,
  the 160-bit digest, and the constant \<open>KOMODO_ASSETCHAIN_MAXLEN\<close>, a positive \<open>int\<close>
  literal (65 upstream). They are parameters of the model.

  The fourth parameter is a read that C++ leaves undefined. Lines 54, 77 and 97 are
  \<open>const char *idName = boost::algorithm::to_lower_copy(...).c_str();\<close>: the pointer
  is into the temporary string that \<open>to_lower_copy\<close> returns, and the temporary is
  destroyed at the end of that declaration. The \<open>strlen(idName)\<close> and \<open>Hash(idName,
  idName + strlen(idName))\<close> of the next lines read the dead buffer. \<open>dead_c_str e s\<close>
  is the byte range \<open>idName\<close> .. \<open>idName + strlen(idName)\<close> that they find there
  when the destroyed string was \<open>s\<close>. Nothing is assumed about it: the source does not
  say which bytes are hashed. (The model takes the read to return bytes and the bytes to
  depend on \<open>s\<close> only; a run in which the read faults is outside it.)
\<close>

record name_env =
  Hash :: "bytes \<Rightarrow> uint256"
  Hash160 :: "bytes \<Rightarrow> uint160"
  KOMODO_ASSETCHAIN_MAXLEN :: nat
  dead_c_str :: "string \<Rightarrow> bytes"

text \<open>\<open>uint160::IsNull()\<close>: every byte of the blob is zero. \<open>uint160()\<close> is the null blob.\<close>

definition IsNull :: "uint160 \<Rightarrow> bool" where
  "IsNull b = list_all (\<lambda>c. c = CHR 0x00) b"

definition uint160_null :: uint160 where
  "uint160_null = replicate 20 (CHR 0x00)"

subsection \<open>ParseSubNames\<close>

text \<open>The first loop of \<open>ParseSubNames\<close>: a character of \<open>invalidChars\<close> becomes \<open>_\<close>.\<close>

definition invalidChars :: string where
  "invalidChars = [CHR 0x5C, CHR ''/'', CHR '':'', CHR ''*'', CHR ''?'', CHR 0x22, CHR ''<'', CHR ''>'', CHR ''|'']"

definition replace_invalid :: "string \<Rightarrow> string" where
  "replace_invalid nameCopy = map (\<lambda>c. if c \<in> set invalidChars then CHR ''_'' else c) nameCopy"

text \<open>
  \<open>boost::split(retNames, nameCopy, boost::is_any_of(".@"))\<close> with the default
  \<open>token_compress_off\<close>: every separator ends a token, adjacent separators give empty
  tokens, and the input without a separator (the empty input too) is one token.
  \<open>cur\<close> holds the current token, reversed.
\<close>

fun split_acc :: "string \<Rightarrow> string \<Rightarrow> string \<Rightarrow> string list" where
  "split_acc seps cur [] = [rev cur]"
| "split_acc seps cur (c # cs) =
     (if c \<in> set seps then rev cur # split_acc seps [] cs else split_acc seps (c # cur) cs)"

definition boost_split :: "string \<Rightarrow> string \<Rightarrow> string list" where
  "boost_split seps s = split_acc seps [] s"

text \<open>
  The second loop: \<open>if (retNames[i].size() > KOMODO_ASSETCHAIN_MAXLEN - 1)
  retNames[i] = std::string(retNames[i], 0, KOMODO_ASSETCHAIN_MAXLEN - 1)\<close>.
\<close>

definition truncate_label :: "nat \<Rightarrow> string \<Rightarrow> string" where
  "truncate_label maxlen s = (if length s > maxlen - 1 then take (maxlen - 1) s else s)"

definition ParseSubNames :: "nat \<Rightarrow> string \<Rightarrow> string list" where
  "ParseSubNames maxlen Name =
     (let nameCopy = replace_invalid Name;
          retNames = boost_split ''.@'' nameCopy
      in map (truncate_label maxlen) retNames)"

subsection \<open>CleanName and GetNameID\<close>

text \<open>
  \<open>boost::algorithm::to_lower_copy\<close> in the classic locale maps \<open>A\<close>..\<open>Z\<close> to
  \<open>a\<close>..\<open>z\<close> and leaves every other byte. \<open>c_str_range s\<close> is the range
  \<open>p\<close> .. \<open>p + strlen(p)\<close> for \<open>p = s.c_str()\<close> while \<open>s\<close> is alive: the bytes
  before the first NUL. It is what \<open>dead_c_str e s\<close> would be if the buffer of the
  destroyed string were still as the string left it.
\<close>

definition to_lower_char :: "char \<Rightarrow> char" where
  "to_lower_char c =
     (let n = (of_char c :: nat) in if 65 \<le> n \<and> n \<le> 90 then char_of (n + 32) else c)"

definition to_lower_copy :: "string \<Rightarrow> string" where
  "to_lower_copy s = map to_lower_char s"

definition c_str_range :: "string \<Rightarrow> bytes" where
  "c_str_range s = takeWhile (\<lambda>c. c \<noteq> CHR 0x00) s"

text \<open>
  The loop of \<open>CleanName\<close>, \<open>for (int i = subNames.size() - 1; i > 0; i--)\<close>, by
  recursion on \<open>i\<close>: the step at \<open>i\<close> hashes \<open>subNames[i]\<close> into \<open>Parent\<close> and goes on
  with \<open>i - 1\<close>; the loop ends at \<open>i = 0\<close>. Every index it reads is below
  \<open>subNames.size()\<close>. Both branches of the \<open>if\<close> start with the same
  \<open>Hash(idName, idName + strlen(idName))\<close>, on the dead buffer of the lower-cased
  copy of \<open>subNames[i]\<close> (line 54).
\<close>

primrec CleanName_loop :: "name_env \<Rightarrow> string list \<Rightarrow> nat \<Rightarrow> uint160 \<Rightarrow> uint160" where
  "CleanName_loop e subNames 0 Parent = Parent"
| "CleanName_loop e subNames (Suc i) Parent =
     (let idName = dead_c_str e (to_lower_copy (subNames ! Suc i));
          idHash = (if IsNull Parent then Hash e idName
                    else Hash e (Parent @ Hash e idName))
      in CleanName_loop e subNames i (Hash160 e idHash))"

text \<open>\<open>CleanName\<close> returns the cleaned name and the value it leaves in \<open>Parent\<close>.\<close>

definition CleanName :: "name_env \<Rightarrow> string \<Rightarrow> uint160 \<Rightarrow> string \<times> uint160" where
  "CleanName e Name Parent =
     (let subNames = ParseSubNames (KOMODO_ASSETCHAIN_MAXLEN e) Name
      in if length subNames = 0 then ('''', Parent)
         else (subNames ! 0, CleanName_loop e subNames (length subNames - 1) Parent))"

text \<open>
  \<open>CIdentity::GetNameID(Name, parent)\<close>: \<open>CleanName\<close> runs on the copy \<open>newParent\<close>
  and its two results are not read again; \<open>idName\<close> points into the dead buffer of
  the lower-cased copy of \<open>Name\<close> (line 77), and the test and the second hash are on
  \<open>parent\<close>, as in the source. (\<open>par\<close> is the source's \<open>parent\<close>, a name that the
  record below takes.)
\<close>

definition GetNameID :: "name_env \<Rightarrow> string \<Rightarrow> uint160 \<Rightarrow> uint160" where
  "GetNameID e Name par =
     (let newParent = par;
          (cleanName, newParent) = CleanName e Name newParent;
          idName = dead_c_str e (to_lower_copy Name);
          idHash = (if IsNull par then Hash e idName
                    else Hash e (par @ Hash e idName))
      in Hash160 e idHash)"

text \<open>
  Of a \<open>CIdentity\<close> the file reads the fields \<open>name\<close> and \<open>parent\<close>; the other fields
  are the record's extension. \<open>GetNameID(Name) const\<close>, with the same dead buffer
  at line 97, and \<open>GetNameID() const\<close> follow.
\<close>

record CIdentity =
  name :: string
  parent :: uint160

definition GetNameID_of :: "name_env \<Rightarrow> 'a CIdentity_scheme \<Rightarrow> string \<Rightarrow> uint160" where
  "GetNameID_of e identity Name =
     (let newLevel = parent identity;
          (cleanName, newLevel) = CleanName e Name newLevel;
          idName = dead_c_str e (to_lower_copy Name);
          idHash = (if IsNull (parent identity) then Hash e idName
                    else Hash e (parent identity @ Hash e idName))
      in Hash160 e idHash)"

definition GetNameID_self :: "name_env \<Rightarrow> 'a CIdentity_scheme \<Rightarrow> uint160" where
  "GetNameID_self e identity = GetNameID_of e identity (name identity)"

section \<open>Identity histories: src/keystore.cpp, lines 208-289\<close>

text \<open>
  \<open>std::map<uint32_t, CIdentity>\<close> is the list of its entries in ascending order of
  key, every key once. \<open>begin()\<close> is the head of the list, \<open>rbegin()\<close> its last
  entry and \<open>erase(begin())\<close> its tail. \<open>insert\<close> puts a new key in its place and
  leaves the map as it is when the key is there already.
\<close>

fun map_insert :: "32 word \<Rightarrow> 'v \<Rightarrow> (32 word \<times> 'v) list \<Rightarrow> (32 word \<times> 'v) list" where
  "map_insert k v [] = [(k, v)]"
| "map_insert k v ((k', v') # xs) =
     (if k < k' then (k, v) # (k', v') # xs
      else if k = k' then (k', v') # xs
      else (k', v') # map_insert k v xs)"

text \<open>
  \<open>CIdentityWithHistory\<close> (declared in pbaas/identity.h, not part of the sources): the
  constructor's three arguments are its fields.
\<close>

record 'a CIdentityWithHistory =
  version :: nat
  flags :: nat
  ids :: "(32 word \<times> 'a CIdentity_scheme) list"

text \<open>
  \<open>CIdentityWithHistory::UpdateIdentity\<close>. The result is the returned \<open>bool\<close> and the
  history after the call. With no entry, \<open>ids.begin()->first\<close> reads through the end
  iterator of an empty map, which C++ leaves undefined: the result is \<open>None\<close>.
\<close>

definition CIdentityWithHistory_UpdateIdentity ::
  "'a CIdentityWithHistory \<Rightarrow> 'a CIdentity_scheme \<Rightarrow> uint256 \<Rightarrow> 32 word
     \<Rightarrow> (bool \<times> 'a CIdentityWithHistory) option" where
  "CIdentityWithHistory_UpdateIdentity h identity txId blockHeight =
     (if length (ids h) = 1 then
        (if blockHeight \<noteq> fst (hd (ids h))
         then Some (True, h\<lparr>ids := map_insert blockHeight identity (ids h)\<rparr>)
         else Some (True, h))
      else
        (case ids h of
           [] \<Rightarrow> None
         | first # rest \<Rightarrow>
             if blockHeight > fst first then
               (if blockHeight \<noteq> fst (last (ids h))
                then Some (True, h\<lparr>ids := map_insert blockHeight identity rest\<rparr>)
                else Some (True, h))
             else Some (False, h)))"

section \<open>The key store: src/keystore.cpp, lines 130-188 and 235-449\<close>

type_synonym CScript = bytes
type_synonym CScriptID = uint160
type_synonym CIdentityID = uint160

text \<open>
  The members of \<open>CBasicKeyStore\<close> that the functions below read or write. The HD seed
  and the Sapling keys and addresses are values of types declared elsewhere; they are
  type parameters. The two locks order concurrent calls and are not modelled: every
  function is one sequential step.
\<close>

record ('seed, 'a, 'sk, 'fvk, 'ivk, 'addr) CBasicKeyStore =
  hdSeed :: 'seed
  mapScripts :: "CScriptID \<rightharpoonup> CScript"
  mapIdentities :: "CIdentityID \<rightharpoonup> 'a CIdentityWithHistory"
  mapSaplingSpendingKeys :: "'fvk \<rightharpoonup> 'sk"
  mapSaplingFullViewingKeys :: "'ivk \<rightharpoonup> 'fvk"
  mapSaplingIncomingViewingKeys :: "'addr \<rightharpoonup> 'ivk"

subsection \<open>HD seed\<close>

text \<open>
  \<open>HDSeed::IsNull()\<close> is declared outside the sources; it is the parameter \<open>isNull\<close>.
  \<open>GetHDSeed\<close> returns \<open>Some seedOut\<close> for \<open>true\<close> and \<open>None\<close> for \<open>false\<close>.
\<close>

definition SetHDSeed ::
  "('seed \<Rightarrow> bool) \<Rightarrow> ('seed, 'a, 'sk, 'fvk, 'ivk, 'addr) CBasicKeyStore \<Rightarrow> 'seed
     \<Rightarrow> bool \<times> ('seed, 'a, 'sk, 'fvk, 'ivk, 'addr) CBasicKeyStore" where
  "SetHDSeed isNull ks seed =
     (if \<not> isNull (hdSeed ks) then (False, ks)
      else (True, ks\<lparr>hdSeed := seed\<rparr>))"

definition HaveHDSeed ::
  "('seed \<Rightarrow> bool) \<Rightarrow> ('seed, 'a, 'sk, 'fvk, 'ivk, 'addr) CBasicKeyStore \<Rightarrow> bool" where
  "HaveHDSeed isNull ks = (\<not> isNull (hdSeed ks))"

definition GetHDSeed ::
  "('seed \<Rightarrow> bool) \<Rightarrow> ('seed, 'a, 'sk, 'fvk, 'ivk, 'addr) CBasicKeyStore \<Rightarrow> 'seed option" where
  "GetHDSeed isNull ks = (if isNull (hdSeed ks) then None else Some (hdSeed ks))"

text \<open>A sequence of \<open>SetHDSeed\<close> calls: the returned values, in order, and the last store.\<close>

fun SetHDSeed_calls ::
  "('seed \<Rightarrow> bool) \<Rightarrow> ('seed, 'a, 'sk, 'fvk, 'ivk, 'addr) CBasicKeyStore \<Rightarrow> 'seed list
     \<Rightarrow> bool list \<times> ('seed, 'a, 'sk, 'fvk, 'ivk, 'addr) CBasicKeyStore" where
  "SetHDSeed_calls isNull ks [] = ([], ks)"
| "SetHDSeed_calls isNull ks (seed # seeds) =
     (let (r, ks') = SetHDSeed isNull ks seed;
          (rs, ks'') = SetHDSeed_calls isNull ks' seeds
      in (r # rs, ks''))"

subsection \<open>Scripts\<close>

text \<open>
  The script-condition decoder, the identity deserialiser and two constants are declared
  outside the sources; \<open>script_env\<close> holds them. \<open>IsPayToCryptoCondition\<close> is \<open>None\<close>
  for \<open>false\<close> and \<open>Some p\<close> for \<open>true\<close> with the decoded parameters \<open>p\<close>;
  \<open>CIdentity_of\<close> is the constructor \<open>CIdentity(p.vData[0])\<close>; \<open>CScriptID_of\<close> is the
  constructor \<open>CScriptID(scr)\<close>, the script's own hash. \<open>CScriptID(uint160)\<close> keeps the
  bytes.
\<close>

record COptCCParams =
  evalCode :: "8 word"
  vData :: "bytes list"

record 'a script_env =
  IsPayToCryptoCondition :: "CScript \<Rightarrow> COptCCParams option"
  COptCCParams_IsValid :: "COptCCParams \<Rightarrow> bool"
  EVAL_IDENTITY_PRIMARY :: "8 word"
  CIdentity_of :: "bytes \<Rightarrow> 'a CIdentity_scheme"
  CIdentity_IsValid :: "'a CIdentity_scheme \<Rightarrow> bool"
  CScriptID_of :: "CScript \<Rightarrow> CScriptID"
  MAX_SCRIPT_ELEMENT_SIZE :: nat

definition ScriptOrIdentityID :: "name_env \<Rightarrow> 'a script_env \<Rightarrow> CScript \<Rightarrow> CScriptID" where
  "ScriptOrIdentityID e d scr =
     (case IsPayToCryptoCondition d scr of
        None \<Rightarrow> CScriptID_of d scr
      | Some p \<Rightarrow>
          if COptCCParams_IsValid d p \<and> evalCode p = EVAL_IDENTITY_PRIMARY d \<and> length (vData p) \<noteq> 0
             \<and> CIdentity_IsValid d (CIdentity_of d (vData p ! 0))
          then GetNameID_self e (CIdentity_of d (vData p ! 0))
          else CScriptID_of d scr)"

definition AddCScript ::
  "name_env \<Rightarrow> 'a script_env \<Rightarrow> ('seed, 'b, 'sk, 'fvk, 'ivk, 'addr) CBasicKeyStore \<Rightarrow> CScript
     \<Rightarrow> bool \<times> ('seed, 'b, 'sk, 'fvk, 'ivk, 'addr) CBasicKeyStore" where
  "AddCScript e d ks redeemScript =
     (if length redeemScript > MAX_SCRIPT_ELEMENT_SIZE d then (False, ks)
      else (True, ks\<lparr>mapScripts := (mapScripts ks)(ScriptOrIdentityID e d redeemScript \<mapsto> redeemScript)\<rparr>))"

definition HaveCScript :: "('seed, 'b, 'sk, 'fvk, 'ivk, 'addr) CBasicKeyStore \<Rightarrow> CScriptID \<Rightarrow> bool" where
  "HaveCScript ks hash = (mapScripts ks hash \<noteq> None)"

definition GetCScript ::
  "('seed, 'b, 'sk, 'fvk, 'ivk, 'addr) CBasicKeyStore \<Rightarrow> CScriptID \<Rightarrow> CScript option" where
  "GetCScript ks hash = mapScripts ks hash"

subsection \<open>Identities\<close>

text \<open>
  \<open>registry_env\<close> adds what the identity functions use of pbaas/identity.h: the
  constants \<open>CIdentityWithHistory::VERSION_CURRENT\<close> and \<open>CIdentityWithHistory::VALID\<close>
  and the method \<open>CIdentityWithHistory::IsValid()\<close>.
\<close>

record 'a registry_env =
  names :: name_env
  VERSION_CURRENT :: nat
  VALID :: nat
  CIdentityWithHistory_IsValid :: "'a CIdentityWithHistory \<Rightarrow> bool"

definition HaveIdentity ::
  "('seed, 'a, 'sk, 'fvk, 'ivk, 'addr) CBasicKeyStore \<Rightarrow> CIdentityID \<Rightarrow> bool" where
  "HaveIdentity ks idID = (mapIdentities ks idID \<noteq> None)"

text \<open>
  \<open>CBasicKeyStore::UpdateIdentity\<close> calls the history's \<open>UpdateIdentity\<close> on the stored
  history, in place, drops the value it returns and returns \<open>true\<close>. It is \<open>None\<close> where
  the history's function is.
\<close>

definition UpdateIdentity ::
  "name_env \<Rightarrow> ('seed, 'a, 'sk, 'fvk, 'ivk, 'addr) CBasicKeyStore \<Rightarrow> 'a CIdentity_scheme
     \<Rightarrow> uint256 \<Rightarrow> 32 word \<Rightarrow> (bool \<times> ('seed, 'a, 'sk, 'fvk, 'ivk, 'addr) CBasicKeyStore) option" where
  "UpdateIdentity e ks identity txId blockHeight =
     (case mapIdentities ks (GetNameID_self e identity) of
        None \<Rightarrow> Some (False, ks)
      | Some idHistory \<Rightarrow>
          (case CIdentityWithHistory_UpdateIdentity idHistory identity txId blockHeight of
             None \<Rightarrow> None
           | Some (dropped, idHistory') \<Rightarrow>
               Some (True, ks\<lparr>mapIdentities :=
                              (mapIdentities ks)(GetNameID_self e identity \<mapsto> idHistory')\<rparr>)))"

definition AddIdentity ::
  "'a registry_env \<Rightarrow> ('seed, 'a, 'sk, 'fvk, 'ivk, 'addr) CBasicKeyStore \<Rightarrow> 'a CIdentity_scheme
     \<Rightarrow> uint256 \<Rightarrow> 32 word \<Rightarrow> bool \<times> ('seed, 'a, 'sk, 'fvk, 'ivk, 'addr) CBasicKeyStore" where
  "AddIdentity r ks identity txId blockHeight =
     (if mapIdentities ks (GetNameID_self (names r) identity) \<noteq> None then (False, ks)
      else
        (let idWithHistory =
               \<lparr>version = VERSION_CURRENT r, flags = VALID r, ids = [(blockHeight, identity)]\<rparr>
         in (True, ks\<lparr>mapIdentities :=
                        (mapIdentities ks)(GetNameID_self (names r) identity \<mapsto> idWithHistory)\<rparr>)))"

definition RemoveIdentity ::
  "('seed, 'a, 'sk, 'fvk, 'ivk, 'addr) CBasicKeyStore \<Rightarrow> CIdentityID
     \<Rightarrow> bool \<times> ('seed, 'a, 'sk, 'fvk, 'ivk, 'addr) CBasicKeyStore" where
  "RemoveIdentity ks idID = (True, ks\<lparr>mapIdentities := (mapIdentities ks)(idID := None)\<rparr>)"

definition GetIdentityAndHistory ::
  "('seed, 'a, 'sk, 'fvk, 'ivk, 'addr) CBasicKeyStore \<Rightarrow> CIdentityID
     \<Rightarrow> 'a CIdentityWithHistory option" where
  "GetIdentityAndHistory ks idID = mapIdentities ks idID"

definition AddUpdateIdentityAndHistory ::
  "'a registry_env \<Rightarrow> ('seed, 'a, 'sk, 'fvk, 'ivk, 'addr) CBasicKeyStore
     \<Rightarrow> 'a CIdentityWithHistory \<Rightarrow> bool \<times> ('seed, 'a, 'sk, 'fvk, 'ivk, 'addr) CBasicKeyStore" where
  "AddUpdateIdentityAndHistory r ks idWithHistory =
     (if CIdentityWithHistory_IsValid r idWithHistory \<and> length (ids idWithHistory) \<noteq> 0
      then (True, ks\<lparr>mapIdentities :=
                      (mapIdentities ks)(GetNameID_self (names r) (snd (hd (ids idWithHistory)))
                                           \<mapsto> idWithHistory)\<rparr>)
      else (True, ks))"

subsection \<open>Sapling keys\<close>

text \<open>
  The key derivations of libzcash are parameters: the field \<open>expsk\<close> of an extended
  spending key, \<open>full_viewing_key()\<close> and \<open>in_viewing_key()\<close>. A getter returns
  \<open>Some\<close> of its out-parameter for \<open>true\<close> and \<open>None\<close> for \<open>false\<close>.
\<close>

record ('sk, 'expsk, 'fvk, 'ivk) sapling_env =
  expsk :: "'sk \<Rightarrow> 'expsk"
  full_viewing_key :: "'expsk \<Rightarrow> 'fvk"
  in_viewing_key :: "'fvk \<Rightarrow> 'ivk"

definition AddSaplingIncomingViewingKey ::
  "('seed, 'a, 'sk, 'fvk, 'ivk, 'addr) CBasicKeyStore \<Rightarrow> 'ivk \<Rightarrow> 'addr
     \<Rightarrow> bool \<times> ('seed, 'a, 'sk, 'fvk, 'ivk, 'addr) CBasicKeyStore" where
  "AddSaplingIncomingViewingKey ks ivk addr =
     (True, ks\<lparr>mapSaplingIncomingViewingKeys := (mapSaplingIncomingViewingKeys ks)(addr \<mapsto> ivk)\<rparr>)"

definition AddSaplingFullViewingKey ::
  "('sk, 'expsk, 'fvk, 'ivk) sapling_env \<Rightarrow> ('seed, 'a, 'sk, 'fvk, 'ivk, 'addr) CBasicKeyStore
     \<Rightarrow> 'fvk \<Rightarrow> 'addr \<Rightarrow> bool \<times> ('seed, 'a, 'sk, 'fvk, 'ivk, 'addr) CBasicKeyStore" where
  "AddSaplingFullViewingKey z ks fvk defaultAddr =
     (let ivk = in_viewing_key z fvk;
          ks' = ks\<lparr>mapSaplingFullViewingKeys := (mapSaplingFullViewingKeys ks)(ivk \<mapsto> fvk)\<rparr>
      in AddSaplingIncomingViewingKey ks' ivk defaultAddr)"

definition AddSaplingSpendingKey ::
  "('sk, 'expsk, 'fvk, 'ivk) sapling_env \<Rightarrow> ('seed, 'a, 'sk, 'fvk, 'ivk, 'addr) CBasicKeyStore
     \<Rightarrow> 'sk \<Rightarrow> 'addr \<Rightarrow> bool \<times> ('seed, 'a, 'sk, 'fvk, 'ivk, 'addr) CBasicKeyStore" where
  "AddSaplingSpendingKey z ks sk defaultAddr =
     (let fvk = full_viewing_key z (expsk z sk);
          (added, ks') = AddSaplingFullViewingKey z ks fvk defaultAddr
      in if \<not> added then (False, ks')
         else (True, ks'\<lparr>mapSaplingSpendingKeys := (mapSaplingSpendingKeys ks')(fvk \<mapsto> sk)\<rparr>))"

definition HaveSaplingFullViewingKey ::
  "('seed, 'a, 'sk, 'fvk, 'ivk, 'addr) CBasicKeyStore \<Rightarrow> 'ivk \<Rightarrow> bool" where
  "HaveSaplingFullViewingKey ks ivk = (mapSaplingFullViewingKeys ks ivk \<noteq> None)"

definition HaveSaplingIncomingViewingKey ::
  "('seed, 'a, 'sk, 'fvk, 'ivk, 'addr) CBasicKeyStore \<Rightarrow> 'addr \<Rightarrow> bool" where
  "HaveSaplingIncomingViewingKey ks addr = (mapSaplingIncomingViewingKeys ks addr \<noteq> None)"

definition GetSaplingFullViewingKey ::
  "('seed, 'a, 'sk, 'fvk, 'ivk, 'addr) CBasicKeyStore \<Rightarrow> 'ivk \<Rightarrow> 'fvk option" where
  "GetSaplingFullViewingKey ks ivk = mapSaplingFullViewingKeys ks ivk"

definition GetSaplingIncomingViewingKey ::
  "('seed, 'a, 'sk, 'fvk, 'ivk, 'addr) CBasicKeyStore \<Rightarrow> 'addr \<Rightarrow> 'ivk option" where
  "GetSaplingIncomingViewingKey ks addr = mapSaplingIncomingViewingKeys ks addr"

text \<open>
  Modelled from the spec: \<open>CBasicKeyStore::GetSaplingSpendingKey\<close>, which keystore.cpp
  calls and keystore.h defines, is not part of the sources. By the spec it is the last
  link of the chain "address, incoming viewing key, full viewing key, spending key" and
  fails if the link is missing: the lookup of the full viewing key in
  \<open>mapSaplingSpendingKeys\<close>, as the two getters above are for their maps.
\<close>

definition GetSaplingSpendingKey ::
  "('seed, 'a, 'sk, 'fvk, 'ivk, 'addr) CBasicKeyStore \<Rightarrow> 'fvk \<Rightarrow> 'sk option" where
  "GetSaplingSpendingKey ks fvk = mapSaplingSpendingKeys ks fvk"

definition GetSaplingExtendedSpendingKey ::
  "('seed, 'a, 'sk, 'fvk, 'ivk, 'addr) CBasicKeyStore \<Rightarrow> 'addr \<Rightarrow> 'sk option" where
  "GetSaplingExtendedSpendingKey ks addr =
     (case GetSaplingIncomingViewingKey ks addr of
        None \<Rightarrow> None
      | Some ivk \<Rightarrow>
          (case GetSaplingFullViewingKey ks ivk of
             None \<Rightarrow> None
           | Some fvk \<Rightarrow> GetSaplingSpendingKey ks fvk))"

section \<open>Sequences of calls\<close>

text \<open>
  A sequence of \<open>CIdentityWithHistory::UpdateIdentity\<close> calls on one history, each on
  the history the call before it left: the last history, or \<open>None\<close> when a call is.
\<close>

fun CIdentityWithHistory_UpdateIdentity_calls ::
  "'a CIdentityWithHistory \<Rightarrow> ('a CIdentity_scheme \<times> uint256 \<times> 32 word) list
     \<Rightarrow> 'a CIdentityWithHistory option" where
  "CIdentityWithHistory_UpdateIdentity_calls h [] = Some h"
| "CIdentityWithHistory_UpdateIdentity_calls h ((identity, txId, blockHeight) # calls) =
     (case CIdentityWithHistory_UpdateIdentity h identity txId blockHeight of
        None \<Rightarrow> None
      | Some (res, h') \<Rightarrow> CIdentityWithHistory_UpdateIdentity_calls h' calls)"

text \<open>The four calls that write \<open>mapIdentities\<close>, and a sequence of them.\<close>

datatype 'a registry_call =
    Call_AddIdentity "'a CIdentity_scheme" uint256 "32 word"
  | Call_UpdateIdentity "'a CIdentity_scheme" uint256 "32 word"
  | Call_RemoveIdentity CIdentityID
  | Call_AddUpdateIdentityAndHistory "'a CIdentityWithHistory"

fun registry_step ::
  "'a registry_env \<Rightarrow> ('seed, 'a, 'sk, 'fvk, 'ivk, 'addr) CBasicKeyStore \<Rightarrow> 'a registry_call
     \<Rightarrow> (bool \<times> ('seed, 'a, 'sk, 'fvk, 'ivk, 'addr) CBasicKeyStore) option" where
  "registry_step r ks (Call_AddIdentity identity txId blockHeight) =
     Some (AddIdentity r ks identity txId blockHeight)"
| "registry_step r ks (Call_UpdateIdentity identity txId blockHeight) =
     UpdateIdentity (names r) ks identity txId blockHeight"
| "registry_step r ks (Call_RemoveIdentity idID) = Some (RemoveIdentity ks idID)"
| "registry_step r ks (Call_AddUpdateIdentityAndHistory idWithHistory) =
     Some (AddUpdateIdentityAndHistory r ks idWithHistory)"

fun registry_run ::
  "'a registry_env \<Rightarrow> ('seed, 'a, 'sk, 'fvk, 'ivk, 'addr) CBasicKeyStore \<Rightarrow> 'a registry_call list
     \<Rightarrow> ('seed, 'a, 'sk, 'fvk, 'ivk, 'addr) CBasicKeyStore option" where
  "registry_run r ks [] = Some ks"
| "registry_run r ks (c # cs) =
     (case registry_step r ks c of
        None \<Rightarrow> None
      | Some (res, ks') \<Rightarrow> registry_run r ks' cs)"

section \<open>The specification's wording\<close>

text \<open>
  \<open>cleanName\<close> as the specification describes it: parse the name into labels; with no
  label return the empty string and the parent as it is; otherwise fold the labels from
  the last down to index 1 into the parent and return label 0. \<open>foldr\<close> over the
  labels after the first takes the last label first. The digest of a label is a
  parameter: the specification's is \<open>label_digest_spec\<close>, the hash of the lower-cased
  label; \<open>label_digest_dead\<close> hashes what is read from the dead buffer of the
  lower-cased label.
\<close>

definition label_digest_spec :: "name_env \<Rightarrow> string \<Rightarrow> uint256" where
  "label_digest_spec e label = Hash e (to_lower_copy label)"

definition label_digest_dead :: "name_env \<Rightarrow> string \<Rightarrow> uint256" where
  "label_digest_dead e label = Hash e (dead_c_str e (to_lower_copy label))"

definition fold_label :: "name_env \<Rightarrow> (string \<Rightarrow> uint256) \<Rightarrow> string \<Rightarrow> uint160 \<Rightarrow> uint160" where
  "fold_label e digest_of label p =
     (let digest = digest_of label;
          idHash = (if IsNull p then digest else Hash e (p @ digest))
      in Hash160 e idHash)"

definition cleanName_fold ::
  "name_env \<Rightarrow> (string \<Rightarrow> uint256) \<Rightarrow> string \<Rightarrow> uint160 \<Rightarrow> string \<times> uint160" where
  "cleanName_fold e digest_of Name Parent =
     (let labels = ParseSubNames (KOMODO_ASSETCHAIN_MAXLEN e) Name
      in if labels = [] then ('''', Parent)
         else (hd labels, foldr (fold_label e digest_of) (tl labels) Parent))"

definition cleanName_spec :: "name_env \<Rightarrow> string \<Rightarrow> uint160 \<Rightarrow> string \<times> uint160" where
  "cleanName_spec e Name Parent = cleanName_fold e (label_digest_spec e) Name Parent"

text \<open>
  The identity that the decoder reports for a script: the script is a crypto-condition
  output with valid parameters of the identity-primary kind whose first data element
  is a valid identity.
\<close>

definition identity_primary_of :: "'a script_env \<Rightarrow> CScript \<Rightarrow> 'a CIdentity_scheme option" where
  "identity_primary_of d scr =
     (case IsPayToCryptoCondition d scr of
        None \<Rightarrow> None
      | Some p \<Rightarrow>
          (case vData p of
             [] \<Rightarrow> None
           | v # vs \<Rightarrow>
               if COptCCParams_IsValid d p \<and> evalCode p = EVAL_IDENTITY_PRIMARY d
                  \<and> CIdentity_IsValid d (CIdentity_of d v)
               then Some (CIdentity_of d v) else None))"

section \<open>Concrete parameters\<close>

text \<open>
  Stand-ins for the digest functions: each puts a tag byte in front of its input, so
  that two digests are equal only if their inputs are, which is what collision
  resistance stands for. The label limit is upstream's 65, and a dead buffer reads as
  the string left it.
\<close>

definition tagged_env :: name_env where
  "tagged_env = \<lparr>Hash = (\<lambda>b. CHR ''H'' # b), Hash160 = (\<lambda>b. CHR ''R'' # b),
                  KOMODO_ASSETCHAIN_MAXLEN = 65, dead_c_str = c_str_range\<rparr>"

text \<open>A history is valid when its version is not 0.\<close>

definition tagged_registry_env :: "unit registry_env" where
  "tagged_registry_env =
     \<lparr>names = tagged_env, VERSION_CURRENT = 1, VALID = 1,
      CIdentityWithHistory_IsValid = (\<lambda>h. version h \<noteq> 0)\<rparr>"

text \<open>
  A key store as its constructor leaves it: no seed and empty maps. Here a seed is a
  byte string, null when it is empty, and the Sapling keys and addresses are numbers.
\<close>

definition seed_IsNull :: "bytes \<Rightarrow> bool" where
  "seed_IsNull seed = (seed = [])"

definition new_store :: "(bytes, unit, nat, nat, nat, nat) CBasicKeyStore" where
  "new_store =
     \<lparr>hdSeed = [], mapScripts = Map.empty, mapIdentities = Map.empty,
      mapSaplingSpendingKeys = Map.empty, mapSaplingFullViewingKeys = Map.empty,
      mapSaplingIncomingViewingKeys = Map.empty\<rparr>"

definition identity_A :: CIdentity where
  "identity_A = \<lparr>name = ''Alice'', parent = uint160_null\<rparr>"

text \<open>A valid history of three versions of \<open>identity_A\<close>, at heights 1, 2 and 3.\<close>

definition three_entry_history :: "unit CIdentityWithHistory" where
  "three_entry_history =
     \<lparr>version = 1, flags = 1, ids = [(1, identity_A), (2, identity_A), (3, identity_A)]\<rparr>"

text \<open>A history of two versions of \<open>identity_A\<close>, at heights 100 and 105.\<close>

definition two_entry_history :: "unit CIdentityWithHistory" where
  "two_entry_history = \<lparr>version = 1, flags = 1, ids = [(100, identity_A), (105, identity_A)]\<rparr>"

text \<open>
  A name of two labels whose second label has 64 characters, and two names of two
  labels whose second labels, of 66 characters, agree on the first 65 and differ in the
  last.
\<close>

definition name_a_b64 :: string where
  "name_a_b64 = ''a.'' @ replicate 64 (CHR ''b'')"



text \<open>
  A decoder that reports every script as an identity-primary output of \<open>identity_A\<close>;
  the size limit of a script is Bitcoin's 520 bytes.
\<close>

definition identity_decoder :: "unit script_env" where
  "identity_decoder =
     \<lparr>IsPayToCryptoCondition = (\<lambda>scr. Some \<lparr>evalCode = 1, vData = [[]]\<rparr>),
      COptCCParams_IsValid = (\<lambda>p. True),
      EVAL_IDENTITY_PRIMARY = 1,
      CIdentity_of = (\<lambda>v. identity_A),
      CIdentity_IsValid = (\<lambda>i. True),
      CScriptID_of = (\<lambda>scr. CHR ''S'' # scr),
      MAX_SCRIPT_ELEMENT_SIZE = 520\<rparr>"

text \<open>Sapling derivations on numbers, for the concrete case of the round trip.\<close>

definition number_sapling_env :: "(nat, nat, nat, nat) sapling_env" where
  "number_sapling_env = \<lparr>expsk = (\<lambda>sk. sk + 1), full_viewing_key = (\<lambda>k. 2 * k),
                          in_viewing_key = (\<lambda>fvk. fvk div 3)\<rparr>"

text \<open>A decoder that reports no script as a crypto-condition output.\<close>

definition plain_decoder :: "unit script_env" where
  "plain_decoder = identity_decoder\<lparr>IsPayToCryptoCondition := (\<lambda>scr. None)\<rparr>"

section \<open>Identity names\<close>

text \<open>Name parsing always gives a label.\<close>

lemma split_acc_not_Nil: "split_acc seps cur s \<noteq> []"
  by (induction s arbitrary: cur) simp_all

lemma ParseSubNames_not_Nil: "ParseSubNames maxlen Name \<noteq> []"
  by (simp add: ParseSubNames_def boost_split_def split_acc_not_Nil)

text \<open>
  The loop of \<open>CleanName\<close> is the fold of the labels after the first, last label first,
  with the digest of a label taken from the dead buffer.
\<close>

lemma CleanName_loop_foldr:
  "n \<le> length rest \<Longrightarrow>
   CleanName_loop e (x # rest) n p = foldr (fold_label e (label_digest_dead e)) (take n rest) p"
proof (induction n arbitrary: p)
  case 0
  then show ?case by simp
next
  case (Suc n)
  then have n: "n < length rest" by simp
  then have "take (Suc n) rest = take n rest @ [rest ! n]"
    by (rule take_Suc_conv_app_nth)
  with Suc.IH [of "fold_label e (label_digest_dead e) (rest ! n) p"] n show ?case
    by (simp add: fold_label_def label_digest_dead_def Let_def)
qed

lemma CleanName_fold_dead:
  "CleanName e Name Parent = cleanName_fold e (label_digest_dead e) Name Parent"
proof -
  let ?labels = "ParseSubNames (KOMODO_ASSETCHAIN_MAXLEN e) Name"
  obtain x rest where labels: "?labels = x # rest"
    using ParseSubNames_not_Nil [of "KOMODO_ASSETCHAIN_MAXLEN e" Name] by (cases ?labels) auto
  have "CleanName_loop e (x # rest) (length rest) Parent
          = foldr (fold_label e (label_digest_dead e)) (take (length rest) rest) Parent"
    by (rule CleanName_loop_foldr) simp
  then show ?thesis
    by (simp add: CleanName_def cleanName_fold_def labels)
qed

lemma GetNameID_unfold:
  "GetNameID e Name par
     = Hash160 e (if IsNull par then Hash e (dead_c_str e (to_lower_copy Name))
                  else Hash e (par @ Hash e (dead_c_str e (to_lower_copy Name))))"
  by (simp add: GetNameID_def Let_def split_beta)

lemma IsNull_uint160_null: "IsNull uint160_null"
  by code_simp

text \<open>The labels and the lower-cased strings of the names used below.\<close>

lemma ParseSubNames_Alice_Bob: "ParseSubNames 65 ''Alice.Bob'' = [''Alice'', ''Bob'']"
  by code_simp

lemma ParseSubNames_a_b64: "ParseSubNames 65 name_a_b64 = [''a'', replicate 64 (CHR ''b'')]"
  by code_simp



lemma lower_Bob: "to_lower_copy ''Bob'' = ''bob''"
  by code_simp

lemma lower_Alice_Bob: "to_lower_copy ''Alice.Bob'' = ''alice.bob''"
  by code_simp

lemma lower_b64: "to_lower_copy (replicate 64 (CHR ''b'')) = replicate 64 (CHR ''b'')"
  by code_simp



text \<open>
  Claim C2, the code at two names of two labels, for every hash pair \<open>H\<close>, \<open>R\<close> and
  every content \<open>D\<close> of the dead buffer. \<open>CleanName\<close> returns the digest of what
  \<open>strlen\<close> and \<open>Hash\<close> find in the buffer of the destroyed lower-cased copy of the
  label (line 54): for the label \<open>Bob\<close> as for the label of 64 bytes, the source does
  not say that these are the bytes of the label. The claim's parent, by the
  specification's wording, is the digest of the lower-cased label itself.
\<close>

theorem CleanName_dead_buffer:
  "CleanName \<lparr>Hash = H, Hash160 = R, KOMODO_ASSETCHAIN_MAXLEN = 65, dead_c_str = D\<rparr>
       ''Alice.Bob'' uint160_null
     = (''Alice'', R (H (D ''bob'')))
   \<and> cleanName_spec \<lparr>Hash = H, Hash160 = R, KOMODO_ASSETCHAIN_MAXLEN = 65, dead_c_str = D\<rparr>
       ''Alice.Bob'' uint160_null
     = (''Alice'', R (H ''bob''))
   \<and> CleanName \<lparr>Hash = H, Hash160 = R, KOMODO_ASSETCHAIN_MAXLEN = 65, dead_c_str = D\<rparr>
       name_a_b64 uint160_null
     = (''a'', R (H (D (replicate 64 (CHR ''b'')))))
   \<and> cleanName_spec \<lparr>Hash = H, Hash160 = R, KOMODO_ASSETCHAIN_MAXLEN = 65, dead_c_str = D\<rparr>
       name_a_b64 uint160_null
     = (''a'', R (H (replicate 64 (CHR ''b''))))"
  by (simp add: CleanName_def cleanName_spec_def cleanName_fold_def fold_label_def
      label_digest_spec_def ParseSubNames_Alice_Bob ParseSubNames_a_b64 lower_Bob lower_b64
      IsNull_uint160_null)

text \<open>
  Claim C1, the code at \<open>GetNameID("Alice.Bob", null)\<close>. The claim's identifier is
  \<open>Hash160(Hash(parent1 || Hash("alice.bob")))\<close> with \<open>parent1 = Hash160(Hash("bob"))\<close>.
  The code hashes what it finds in the buffer of the destroyed lower-cased copy of the
  name (line 77), and it folds no parent in: the parent that \<open>CleanName\<close> leaves in
  \<open>newParent\<close> is not read again, and the test at line 79 is on the null \<open>parent\<close>.
\<close>

theorem GetNameID_Alice_Bob:
  "GetNameID e ''Alice.Bob'' uint160_null = Hash160 e (Hash e (dead_c_str e ''alice.bob''))"
  by (simp add: GetNameID_unfold lower_Alice_Bob IsNull_uint160_null)


section \<open>The HD seed\<close>

lemma SetHDSeed_calls_set:
  "\<not> isNull (hdSeed ks) \<Longrightarrow> SetHDSeed_calls isNull ks seeds = (replicate (length seeds) False, ks)"
  by (induction seeds) (simp_all add: SetHDSeed_def)

text \<open>
  Claim C7, as the code has it. On a store with no seed, \<open>SetHDSeed\<close> with a seed that
  is not null returns \<open>true\<close> and stores the seed; every later \<open>SetHDSeed\<close> call, with
  whatever seeds, returns \<open>false\<close> and leaves the store as it is, and \<open>GetHDSeed\<close> after
  them returns the first seed.
\<close>

theorem SetHDSeed_write_once:
  assumes "isNull (hdSeed ks)" and "\<not> isNull seed1"
  shows "SetHDSeed isNull ks seed1 = (True, ks\<lparr>hdSeed := seed1\<rparr>)
       \<and> SetHDSeed_calls isNull (ks\<lparr>hdSeed := seed1\<rparr>) seeds
           = (replicate (length seeds) False, ks\<lparr>hdSeed := seed1\<rparr>)
       \<and> GetHDSeed isNull (snd (SetHDSeed_calls isNull (ks\<lparr>hdSeed := seed1\<rparr>) seeds)) = Some seed1"
proof -
  have first: "SetHDSeed isNull ks seed1 = (True, ks\<lparr>hdSeed := seed1\<rparr>)"
    using assms(1) by (simp add: SetHDSeed_def)
  have set: "\<not> isNull (hdSeed (ks\<lparr>hdSeed := seed1\<rparr>))"
    using assms(2) by simp
  have later: "SetHDSeed_calls isNull (ks\<lparr>hdSeed := seed1\<rparr>) seeds
           = (replicate (length seeds) False, ks\<lparr>hdSeed := seed1\<rparr>)"
    using set by (rule SetHDSeed_calls_set)
  have "GetHDSeed isNull (ks\<lparr>hdSeed := seed1\<rparr>) = Some seed1"
    using assms(2) by (simp add: GetHDSeed_def)
  with first later show ?thesis by simp
qed

theorem SetHDSeed_write_once_witness:
  "SetHDSeed seed_IsNull new_store ''seed1'' = (True, new_store\<lparr>hdSeed := ''seed1''\<rparr>)
   \<and> SetHDSeed_calls seed_IsNull (new_store\<lparr>hdSeed := ''seed1''\<rparr>) [''seed2'', ''seed3'']
       = ([False, False], new_store\<lparr>hdSeed := ''seed1''\<rparr>)
   \<and> GetHDSeed seed_IsNull
        (snd (SetHDSeed_calls seed_IsNull (new_store\<lparr>hdSeed := ''seed1''\<rparr>) [''seed2'', ''seed3'']))
       = Some ''seed1''"
proof -
  have h1: "seed_IsNull (hdSeed new_store)"
    by (simp add: seed_IsNull_def new_store_def)
  have h2: "\<not> seed_IsNull ''seed1''"
    by (simp add: seed_IsNull_def)
  have r: "replicate (length [''seed2'', ''seed3'']) False = [False, False]"
    by simp
  show ?thesis
    using SetHDSeed_write_once [of seed_IsNull new_store "''seed1''" "[''seed2'', ''seed3'']", OF h1 h2]
    unfolding r .
qed

text \<open>
  Claim C7 as stated fails when the first seed is null: the first call returns \<open>true\<close>
  and stores it, the store still has no seed, and the second call returns \<open>true\<close> and
  stores its own seed.
\<close>

theorem SetHDSeed_null_seed_counterexample:
  "SetHDSeed seed_IsNull new_store [] = (True, new_store)
   \<and> SetHDSeed seed_IsNull (snd (SetHDSeed seed_IsNull new_store [])) ''seed2''
       = (True, new_store\<lparr>hdSeed := ''seed2''\<rparr>)"
  by (simp add: SetHDSeed_def seed_IsNull_def new_store_def)

section \<open>Scripts\<close>

lemma ScriptOrIdentityID_cases:
  "ScriptOrIdentityID e d scr =
     (case identity_primary_of d scr of
        Some identity \<Rightarrow> GetNameID_self e identity
      | None \<Rightarrow> CScriptID_of d scr)"
  by (cases "IsPayToCryptoCondition d scr")
     (auto simp: ScriptOrIdentityID_def identity_primary_of_def neq_Nil_conv split: list.splits)

text \<open>
  Claim C6, as the code has it. \<open>AddCScript\<close> of a script longer than
  \<open>MAX_SCRIPT_ELEMENT_SIZE\<close> returns \<open>false\<close> and stores nothing, whatever the script
  encodes. Of any other script it returns \<open>true\<close> and stores the script under
  \<open>CScriptID(I.GetNameID())\<close> when the decoder reports a valid identity-primary
  condition with the valid identity \<open>I\<close>, and under the script's own identifier
  otherwise.
\<close>

theorem AddCScript_key:
  "AddCScript e d ks scr =
     (if length scr > MAX_SCRIPT_ELEMENT_SIZE d then (False, ks)
      else (True, ks\<lparr>mapScripts := (mapScripts ks)
              ((case identity_primary_of d scr of
                  Some identity \<Rightarrow> GetNameID_self e identity
                | None \<Rightarrow> CScriptID_of d scr) \<mapsto> scr)\<rparr>))"
  by (simp add: AddCScript_def ScriptOrIdentityID_cases)

theorem AddCScript_key_witness:
  "identity_primary_of identity_decoder ''script'' = Some identity_A
   \<and> AddCScript tagged_env identity_decoder new_store ''script''
       = (True, new_store\<lparr>mapScripts := [GetNameID_self tagged_env identity_A \<mapsto> ''script'']\<rparr>)
   \<and> identity_primary_of plain_decoder ''script'' = None
   \<and> AddCScript tagged_env plain_decoder new_store ''script''
       = (True, new_store\<lparr>mapScripts := [''Sscript'' \<mapsto> ''script'']\<rparr>)
   \<and> AddCScript tagged_env plain_decoder new_store (replicate 521 (CHR ''x'')) = (False, new_store)"
proof -
  have small: "\<not> length ''script'' > MAX_SCRIPT_ELEMENT_SIZE identity_decoder"
    "\<not> length ''script'' > MAX_SCRIPT_ELEMENT_SIZE plain_decoder"
    by (simp_all add: identity_decoder_def plain_decoder_def)
  have large: "length (replicate 521 (CHR ''x'')) > MAX_SCRIPT_ELEMENT_SIZE plain_decoder"
    by (simp add: identity_decoder_def plain_decoder_def)
  have id: "identity_primary_of identity_decoder ''script'' = Some identity_A"
    by (simp add: identity_primary_of_def identity_decoder_def)
  have plain: "identity_primary_of plain_decoder ''script'' = None"
    by (simp add: identity_primary_of_def plain_decoder_def)
  have own: "CScriptID_of plain_decoder ''script'' = ''Sscript''"
    by (simp add: plain_decoder_def identity_decoder_def)
  have empty: "mapScripts new_store = Map.empty"
    by (simp add: new_store_def)
  from AddCScript_key [of tagged_env identity_decoder new_store "''script''"]
       AddCScript_key [of tagged_env plain_decoder new_store "''script''"]
       AddCScript_key [of tagged_env plain_decoder new_store "replicate 521 (CHR ''x'')"]
  show ?thesis
    using small large by (simp add: id plain own empty)
qed

text \<open>
  Claim C6 as stated covers every script of an identity. A script of 521 bytes that
  the decoder reports as an identity-primary output of \<open>identity_A\<close> is not stored:
  \<open>AddCScript\<close> returns \<open>false\<close> and the store is as it was.
\<close>

theorem AddCScript_oversized_counterexample:
  "identity_primary_of identity_decoder (replicate 521 (CHR 0x00)) = Some identity_A
   \<and> AddCScript tagged_env identity_decoder new_store (replicate 521 (CHR 0x00)) = (False, new_store)
   \<and> mapScripts new_store (GetNameID_self tagged_env identity_A) = None"
  by (simp add: identity_primary_of_def identity_decoder_def AddCScript_def new_store_def)

section \<open>Identity histories\<close>

text \<open>What \<open>map_insert\<close> keeps: the list is not empty, grows by one entry at most, and stays in strictly ascending order of key.\<close>

lemma map_insert_not_Nil: "map_insert k v xs \<noteq> []"
  by (cases xs) (auto split: if_splits)

lemma length_map_insert: "length (map_insert k v xs) \<le> Suc (length xs)"
  by (induction xs) auto

lemma map_insert_above:
  "\<forall>x \<in> set xs. k' < fst x \<Longrightarrow> k' < k \<Longrightarrow> \<forall>x \<in> set (map_insert k v xs). k' < fst x"
  by (induction xs) (fastforce split: if_splits)+

lemma sorted_map_insert:
  "sorted_wrt (<) (map fst xs) \<Longrightarrow> sorted_wrt (<) (map fst (map_insert k v xs))"
proof (induction xs)
  case Nil
  then show ?case by simp
next
  case (Cons x xs)
  obtain k' v' where x: "x = (k', v')" by (cases x)
  from Cons.prems have tail: "sorted_wrt (<) (map fst xs)" and above: "\<forall>y \<in> set xs. k' < fst y"
    by (auto simp: x)
  show ?case
  proof (cases "k < k'")
    case True
    with Cons.prems show ?thesis by (auto simp: x)
  next
    case False
    show ?thesis
    proof (cases "k = k'")
      case True
      with Cons.prems show ?thesis by (simp add: x)
    next
      case ne: False
      with False have "k' < k" by simp
      with above have "\<forall>y \<in> set (map_insert k v xs). k' < fst y"
        by (rule map_insert_above)
      with Cons.IH [OF tail] False ne show ?thesis
        by (simp add: x)
    qed
  qed
qed

text \<open>
  Claim C3, as the code has it. On a history of exactly two entries, at heights
  \<open>h1 < h2\<close>, a call with a height up to the minimum \<open>h1\<close> is rejected: it returns
  \<open>false\<close> and leaves the history as it is. A call with the maximum \<open>h2\<close> stores
  nothing and leaves the history as it is, and returns \<open>true\<close>: the duplicate is
  skipped, not rejected. Every other call returns \<open>true\<close>, removes the entry of
  \<open>h1\<close> and inserts \<open>(blockHeight, identity)\<close> in its place by height.
\<close>

theorem UpdateIdentity_two_entries:
  assumes "ids h = [(h1, a), (h2, b)]" and "h1 < h2"
  shows "CIdentityWithHistory_UpdateIdentity h identity txId blockHeight =
           (if blockHeight \<le> h1 then Some (False, h)
            else if blockHeight = h2 then Some (True, h)
            else if blockHeight < h2 then Some (True, h\<lparr>ids := [(blockHeight, identity), (h2, b)]\<rparr>)
            else Some (True, h\<lparr>ids := [(h2, b), (blockHeight, identity)]\<rparr>))"
  using assms by (auto simp: CIdentityWithHistory_UpdateIdentity_def)

theorem UpdateIdentity_two_entries_witness:
  "CIdentityWithHistory_UpdateIdentity two_entry_history identity_A [] 110
     = Some (True, two_entry_history\<lparr>ids := [(105, identity_A), (110, identity_A)]\<rparr>)
   \<and> CIdentityWithHistory_UpdateIdentity two_entry_history identity_A [] 103
     = Some (True, two_entry_history\<lparr>ids := [(103, identity_A), (105, identity_A)]\<rparr>)
   \<and> CIdentityWithHistory_UpdateIdentity two_entry_history identity_A [] 105
     = Some (True, two_entry_history)
   \<and> CIdentityWithHistory_UpdateIdentity two_entry_history identity_A [] 100
     = Some (False, two_entry_history)
   \<and> CIdentityWithHistory_UpdateIdentity two_entry_history identity_A [] 99
     = Some (False, two_entry_history)"
proof -
  have h: "ids two_entry_history = [(100, identity_A), (105, identity_A)]"
    by (simp add: two_entry_history_def)
  have lt: "(100 :: 32 word) < 105"
    by simp
  note two = UpdateIdentity_two_entries [OF h lt, of identity_A "[]"]
  show ?thesis
    using two [of 110] two [of 103] two [of 105] two [of 100] two [of 99]
    by simp
qed

text \<open>
  Claim C3 as stated has the height of the maximum rejected, as a height up to the
  minimum is. On the history at heights 100 and 105 the call with 105 returns
  \<open>true\<close>, where the call with 100 returns \<open>false\<close>.
\<close>

theorem UpdateIdentity_duplicate_counterexample:
  "CIdentityWithHistory_UpdateIdentity two_entry_history identity_A [] 105
     = Some (True, two_entry_history)
   \<and> CIdentityWithHistory_UpdateIdentity two_entry_history identity_A [] 100
     = Some (False, two_entry_history)"
  by (simp add: CIdentityWithHistory_UpdateIdentity_def two_entry_history_def)

lemma UpdateIdentity_history_defined:
  "ids h \<noteq> [] \<Longrightarrow> \<exists>res h'. CIdentityWithHistory_UpdateIdentity h identity txId blockHeight = Some (res, h') \<and> ids h' \<noteq> []"
  by (cases "ids h") (auto simp: CIdentityWithHistory_UpdateIdentity_def map_insert_not_Nil)

lemma UpdateIdentity_history_rejects:
  "CIdentityWithHistory_UpdateIdentity h identity txId blockHeight = Some (False, h') \<Longrightarrow> h' = h"
  by (auto simp: CIdentityWithHistory_UpdateIdentity_def split: if_splits list.splits)

lemma UpdateIdentity_history_bound:
  assumes "CIdentityWithHistory_UpdateIdentity h identity txId blockHeight = Some (res, h')"
    and "length (ids h) \<le> 2" and "sorted_wrt (<) (map fst (ids h))"
  shows "ids h' \<noteq> [] \<and> length (ids h') \<le> 2 \<and> sorted_wrt (<) (map fst (ids h'))"
proof (cases "ids h")
  case Nil
  with assms(1) show ?thesis by (simp add: CIdentityWithHistory_UpdateIdentity_def)
next
  case (Cons first rest)
  show ?thesis
  proof (cases rest)
    case Nil
    with Cons have one: "ids h = [first]" by simp
    have "sorted_wrt (<) (map fst (map_insert blockHeight identity [first]))"
      by (rule sorted_map_insert) simp
    moreover have "length (map_insert blockHeight identity [first]) \<le> 2"
      using length_map_insert [of blockHeight identity "[first]"] by simp
    ultimately show ?thesis
      using assms(1) one
      by (auto simp: CIdentityWithHistory_UpdateIdentity_def map_insert_not_Nil
          simp del: map_insert.simps split: if_splits)
  next
    case (Cons second rest')
    with \<open>ids h = first # rest\<close> assms(2) have two: "ids h = [first, second]" by simp
    have "sorted_wrt (<) (map fst (map_insert blockHeight identity [second]))"
      by (rule sorted_map_insert) simp
    moreover have "length (map_insert blockHeight identity [second]) \<le> 2"
      using length_map_insert [of blockHeight identity "[second]"] by simp
    ultimately show ?thesis
      using assms(1,3) two
      by (auto simp: CIdentityWithHistory_UpdateIdentity_def map_insert_not_Nil
          simp del: map_insert.simps split: if_splits)
  qed
qed

lemma UpdateIdentity_history_length:
  assumes "CIdentityWithHistory_UpdateIdentity h identity txId blockHeight = Some (res, h')"
    and "length (ids h) \<le> 2"
  shows "length (ids h') \<le> 2"
proof (cases "ids h")
  case Nil
  with assms(1) show ?thesis by (simp add: CIdentityWithHistory_UpdateIdentity_def)
next
  case (Cons first rest)
  show ?thesis
  proof (cases rest)
    case Nil
    with Cons have one: "ids h = [first]" by simp
    have "length (map_insert blockHeight identity [first]) \<le> 2"
      using length_map_insert [of blockHeight identity "[first]"] by simp
    then show ?thesis
      using assms(1) one
      by (auto simp: CIdentityWithHistory_UpdateIdentity_def simp del: map_insert.simps
          split: if_splits)
  next
    case (Cons second rest')
    with \<open>ids h = first # rest\<close> assms(2) have two: "ids h = [first, second]" by simp
    have "length (map_insert blockHeight identity [second]) \<le> 2"
      using length_map_insert [of blockHeight identity "[second]"] by simp
    then show ?thesis
      using assms(1) two
      by (auto simp: CIdentityWithHistory_UpdateIdentity_def simp del: map_insert.simps
          split: if_splits)
  qed
qed

lemma UpdateIdentity_calls_bound:
  "ids h \<noteq> [] \<Longrightarrow> length (ids h) \<le> 2 \<Longrightarrow> sorted_wrt (<) (map fst (ids h)) \<Longrightarrow>
   \<exists>h'. CIdentityWithHistory_UpdateIdentity_calls h calls = Some h'
        \<and> ids h' \<noteq> [] \<and> length (ids h') \<le> 2 \<and> sorted_wrt (<) (map fst (ids h'))"
proof (induction calls arbitrary: h)
  case Nil
  then show ?case by simp
next
  case (Cons c calls)
  obtain identity txId blockHeight where c: "c = (identity, txId, blockHeight)"
    by (cases c)
  from UpdateIdentity_history_defined [OF Cons.prems(1)]
  obtain res h1 where step: "CIdentityWithHistory_UpdateIdentity h identity txId blockHeight = Some (res, h1)"
    by blast
  from UpdateIdentity_history_bound [OF step Cons.prems(2,3)]
  have "ids h1 \<noteq> []" "length (ids h1) \<le> 2" "sorted_wrt (<) (map fst (ids h1))"
    by simp_all
  from Cons.IH [OF this] show ?case
    by (simp add: c step)
qed

text \<open>
  Claim C4. \<open>AddIdentity\<close> files a history of one entry under the identity's
  identifier, and after every sequence of \<open>CIdentityWithHistory::UpdateIdentity\<close> calls
  on it with strictly increasing heights the history holds at most two entries, at
  strictly increasing heights. (The lemma before shows it for every sequence of calls.)
\<close>

theorem history_bound:
  assumes "AddIdentity r ks0 identity0 txId0 height0 = (True, ks1)"
    and "sorted_wrt (<) (map (\<lambda>(identity, txId, blockHeight). blockHeight) calls)"
  shows "\<exists>h0 h. mapIdentities ks1 (GetNameID_self (names r) identity0) = Some h0
           \<and> ids h0 = [(height0, identity0)]
           \<and> CIdentityWithHistory_UpdateIdentity_calls h0 calls = Some h
           \<and> length (ids h) \<le> 2 \<and> sorted_wrt (<) (map fst (ids h))"
proof -
  let ?h0 = "\<lparr>version = VERSION_CURRENT r, flags = VALID r, ids = [(height0, identity0)]\<rparr>"
  from assms(1) have "mapIdentities ks1 (GetNameID_self (names r) identity0) = Some ?h0"
    by (auto simp: AddIdentity_def Let_def split: if_splits)
  moreover have "\<exists>h. CIdentityWithHistory_UpdateIdentity_calls ?h0 calls = Some h
        \<and> ids h \<noteq> [] \<and> length (ids h) \<le> 2 \<and> sorted_wrt (<) (map fst (ids h))"
    by (rule UpdateIdentity_calls_bound) simp_all
  ultimately show ?thesis by auto
qed

theorem history_bound_witness:
  "mapIdentities (snd (AddIdentity tagged_registry_env new_store identity_A [] 100))
       (GetNameID_self tagged_env identity_A)
     = Some \<lparr>version = 1, flags = 1, ids = [(100, identity_A)]\<rparr>
   \<and> CIdentityWithHistory_UpdateIdentity_calls \<lparr>version = 1, flags = 1, ids = [(100, identity_A)]\<rparr>
        [(identity_A, [], 105), (identity_A, [], 110), (identity_A, [], 120)]
     = Some \<lparr>version = 1, flags = 1, ids = [(110, identity_A), (120, identity_A)]\<rparr>
   \<and> length [(110 :: 32 word, identity_A), (120, identity_A)] \<le> 2
   \<and> sorted_wrt (<) (map fst [(110 :: 32 word, identity_A), (120, identity_A)])"
proof -
  let ?one = "\<lparr>version = 1, flags = 1, ids = [(100 :: 32 word, identity_A)]\<rparr> :: unit CIdentityWithHistory"
  let ?two = "\<lparr>version = 1, flags = 1, ids = [(110 :: 32 word, identity_A), (120, identity_A)]\<rparr>
                :: unit CIdentityWithHistory"
  let ?calls = "[(identity_A, [] :: uint256, 105 :: 32 word), (identity_A, [], 110), (identity_A, [], 120)]"
  have added: "AddIdentity tagged_registry_env new_store identity_A [] 100
       = (True, snd (AddIdentity tagged_registry_env new_store identity_A [] 100))"
    by (simp add: AddIdentity_def new_store_def)
  have rising: "sorted_wrt (<) (map (\<lambda>(identity, txId, blockHeight). blockHeight) ?calls)"
    by simp
  have stored: "mapIdentities (snd (AddIdentity tagged_registry_env new_store identity_A [] 100))
       (GetNameID_self tagged_env identity_A) = Some ?one"
    by (simp add: AddIdentity_def new_store_def tagged_registry_env_def)
  have calls: "CIdentityWithHistory_UpdateIdentity_calls ?one ?calls = Some ?two"
    by (simp add: CIdentityWithHistory_UpdateIdentity_def)
  from history_bound [OF added rising]
  obtain h0 h where "mapIdentities (snd (AddIdentity tagged_registry_env new_store identity_A [] 100))
             (GetNameID_self (names tagged_registry_env) identity_A) = Some h0"
    and "CIdentityWithHistory_UpdateIdentity_calls h0 ?calls = Some h"
    and bound: "length (ids h) \<le> 2" "sorted_wrt (<) (map fst (ids h))"
    by blast
  with stored calls have "h = ?two"
    by (simp add: tagged_registry_env_def)
  with bound stored calls show ?thesis
    by simp
qed

section \<open>The identity registry\<close>

lemma registry_step_nonempty:
  assumes "\<forall>k h. mapIdentities ks k = Some h \<longrightarrow> ids h \<noteq> []"
  shows "\<exists>res ks'. registry_step r ks c = Some (res, ks')
           \<and> (\<forall>k h. mapIdentities ks' k = Some h \<longrightarrow> ids h \<noteq> [])"
proof (cases c)
  case (Call_AddIdentity identity txId blockHeight)
  with assms show ?thesis
    by (auto simp: AddIdentity_def)
next
  case (Call_UpdateIdentity identity txId blockHeight)
  show ?thesis
  proof (cases "mapIdentities ks (GetNameID_self (names r) identity)")
    case None
    with assms Call_UpdateIdentity show ?thesis
      by (auto simp: UpdateIdentity_def)
  next
    case (Some idHistory)
    with assms have "ids idHistory \<noteq> []" by blast
    from UpdateIdentity_history_defined [OF this]
    obtain res h' where
      "CIdentityWithHistory_UpdateIdentity idHistory identity txId blockHeight = Some (res, h')"
      and "ids h' \<noteq> []"
      by blast
    with assms Some Call_UpdateIdentity show ?thesis
      by (auto simp: UpdateIdentity_def)
  qed
next
  case (Call_RemoveIdentity idID)
  with assms show ?thesis
    by (auto simp: RemoveIdentity_def)
next
  case (Call_AddUpdateIdentityAndHistory idWithHistory)
  with assms show ?thesis
    by (auto simp: AddUpdateIdentityAndHistory_def)
qed

lemma registry_run_nonempty:
  "\<forall>k h. mapIdentities ks k = Some h \<longrightarrow> ids h \<noteq> [] \<Longrightarrow>
   \<exists>ks'. registry_run r ks calls = Some ks'
         \<and> (\<forall>k h. mapIdentities ks' k = Some h \<longrightarrow> ids h \<noteq> [])"
proof (induction calls arbitrary: ks)
  case Nil
  then show ?case by simp
next
  case (Cons c calls)
  from registry_step_nonempty [OF Cons.prems, of r c]
  obtain res ks1 where step: "registry_step r ks c = Some (res, ks1)"
    and inv: "\<forall>k h. mapIdentities ks1 k = Some h \<longrightarrow> ids h \<noteq> []"
    by blast
  from Cons.IH [OF inv] show ?case
    by (simp add: step)
qed

lemma registry_step_bound:
  assumes "\<forall>k h. mapIdentities ks k = Some h \<longrightarrow> ids h \<noteq> [] \<and> length (ids h) \<le> 2"
    and "\<forall>w. c \<noteq> Call_AddUpdateIdentityAndHistory w"
  shows "\<exists>res ks'. registry_step r ks c = Some (res, ks')
           \<and> (\<forall>k h. mapIdentities ks' k = Some h \<longrightarrow> ids h \<noteq> [] \<and> length (ids h) \<le> 2)"
proof (cases c)
  case (Call_AddIdentity identity txId blockHeight)
  with assms(1) show ?thesis
    by (auto simp: AddIdentity_def)
next
  case (Call_UpdateIdentity identity txId blockHeight)
  show ?thesis
  proof (cases "mapIdentities ks (GetNameID_self (names r) identity)")
    case None
    with assms(1) Call_UpdateIdentity show ?thesis
      by (auto simp: UpdateIdentity_def)
  next
    case (Some idHistory)
    with assms(1) have old: "ids idHistory \<noteq> []" "length (ids idHistory) \<le> 2" by auto
    from UpdateIdentity_history_defined [OF old(1)]
    obtain res h' where
      step: "CIdentityWithHistory_UpdateIdentity idHistory identity txId blockHeight = Some (res, h')"
      and "ids h' \<noteq> []"
      by blast
    moreover from UpdateIdentity_history_length [OF step old(2)] have "length (ids h') \<le> 2" .
    ultimately show ?thesis
      using assms(1) Some Call_UpdateIdentity by (auto simp: UpdateIdentity_def)
  qed
next
  case (Call_RemoveIdentity idID)
  with assms(1) show ?thesis
    by (auto simp: RemoveIdentity_def)
next
  case (Call_AddUpdateIdentityAndHistory idWithHistory)
  with assms(2) show ?thesis by simp
qed

lemma registry_run_bound:
  "\<forall>k h. mapIdentities ks k = Some h \<longrightarrow> ids h \<noteq> [] \<and> length (ids h) \<le> 2 \<Longrightarrow>
   \<forall>w. Call_AddUpdateIdentityAndHistory w \<notin> set calls \<Longrightarrow>
   \<exists>ks'. registry_run r ks calls = Some ks'
         \<and> (\<forall>k h. mapIdentities ks' k = Some h \<longrightarrow> ids h \<noteq> [] \<and> length (ids h) \<le> 2)"
proof (induction calls arbitrary: ks)
  case Nil
  then show ?case by simp
next
  case (Cons c calls)
  from Cons.prems(2) have c: "\<forall>w. c \<noteq> Call_AddUpdateIdentityAndHistory w"
    and rest: "\<forall>w. Call_AddUpdateIdentityAndHistory w \<notin> set calls"
    by auto
  from registry_step_bound [OF Cons.prems(1) c, of r]
  obtain res ks1 where step: "registry_step r ks c = Some (res, ks1)"
    and inv: "\<forall>k h. mapIdentities ks1 k = Some h \<longrightarrow> ids h \<noteq> [] \<and> length (ids h) \<le> 2"
    by blast
  from Cons.IH [OF inv rest] show ?case
    by (simp add: step)
qed

text \<open>
  Claim C10, as the code has it. From a store with no identity, every sequence of
  \<open>AddIdentity\<close>, \<open>UpdateIdentity\<close>, \<open>RemoveIdentity\<close> and
  \<open>AddUpdateIdentityAndHistory\<close> calls runs to its end, so no \<open>UpdateIdentity\<close> in it
  reads the first entry of an empty history, and every history stored afterwards has
  an entry. If the sequence has no \<open>AddUpdateIdentityAndHistory\<close> call, every history
  stored afterwards has at most two entries.
\<close>

theorem stored_histories_nonempty:
  assumes "mapIdentities ks0 = Map.empty"
  shows "\<exists>ks. registry_run r ks0 calls = Some ks
           \<and> (\<forall>k h. mapIdentities ks k = Some h \<longrightarrow> ids h \<noteq> [])
           \<and> ((\<forall>w. Call_AddUpdateIdentityAndHistory w \<notin> set calls)
                \<longrightarrow> (\<forall>k h. mapIdentities ks k = Some h \<longrightarrow> length (ids h) \<le> 2))"
proof -
  have start: "\<forall>k h. mapIdentities ks0 k = Some h \<longrightarrow> ids h \<noteq> []"
    by (simp add: assms)
  from registry_run_nonempty [OF start, of r calls]
  obtain ks where run: "registry_run r ks0 calls = Some ks"
    and nonempty: "\<forall>k h. mapIdentities ks k = Some h \<longrightarrow> ids h \<noteq> []"
    by blast
  have "\<forall>k h. mapIdentities ks k = Some h \<longrightarrow> length (ids h) \<le> 2"
    if none: "\<forall>w. Call_AddUpdateIdentityAndHistory w \<notin> set calls"
  proof -
    have "\<forall>k h. mapIdentities ks0 k = Some h \<longrightarrow> ids h \<noteq> [] \<and> length (ids h) \<le> 2"
      by (simp add: assms)
    from registry_run_bound [OF this none, of r] run show ?thesis
      by auto
  qed
  with run nonempty show ?thesis by blast
qed

theorem stored_histories_nonempty_witness:
  "registry_run tagged_registry_env new_store
       [Call_AddIdentity identity_A [] 100, Call_UpdateIdentity identity_A [] 105,
        Call_RemoveIdentity (GetNameID_self tagged_env identity_A),
        Call_AddUpdateIdentityAndHistory three_entry_history,
        Call_UpdateIdentity identity_A [] 2]
     = Some (new_store\<lparr>mapIdentities :=
               [GetNameID_self tagged_env identity_A
                  \<mapsto> \<lparr>version = 1, flags = 1, ids = [(2, identity_A), (3, identity_A)]\<rparr>]\<rparr>)
   \<and> ids \<lparr>version = 1, flags = 1, ids = [(2 :: 32 word, identity_A), (3, identity_A)]\<rparr> \<noteq> []
   \<and> registry_run tagged_registry_env new_store
       [Call_AddIdentity identity_A [] 100, Call_UpdateIdentity identity_A [] 105,
        Call_UpdateIdentity identity_A [] 110]
     = Some (new_store\<lparr>mapIdentities :=
               [GetNameID_self tagged_env identity_A
                  \<mapsto> \<lparr>version = 1, flags = 1, ids = [(105, identity_A), (110, identity_A)]\<rparr>]\<rparr>)
   \<and> length (ids \<lparr>version = 1, flags = 1, ids = [(105 :: 32 word, identity_A), (110, identity_A)]\<rparr>) \<le> 2"
proof -
  let ?calls = "[Call_AddIdentity identity_A [] 100, Call_UpdateIdentity identity_A [] 105,
        Call_RemoveIdentity (GetNameID_self tagged_env identity_A),
        Call_AddUpdateIdentityAndHistory three_entry_history,
        Call_UpdateIdentity identity_A [] 2]"
  let ?h = "\<lparr>version = 1, flags = 1, ids = [(2 :: 32 word, identity_A), (3, identity_A)]\<rparr>
              :: unit CIdentityWithHistory"
  let ?ks = "new_store\<lparr>mapIdentities := [GetNameID_self tagged_env identity_A \<mapsto> ?h]\<rparr>"
  let ?calls2 = "[Call_AddIdentity identity_A [] 100, Call_UpdateIdentity identity_A [] 105,
        Call_UpdateIdentity identity_A [] 110] :: unit registry_call list"
  let ?h2 = "\<lparr>version = 1, flags = 1, ids = [(105 :: 32 word, identity_A), (110, identity_A)]\<rparr>
              :: unit CIdentityWithHistory"
  let ?ks2 = "new_store\<lparr>mapIdentities := [GetNameID_self tagged_env identity_A \<mapsto> ?h2]\<rparr>"
  have empty: "mapIdentities new_store = Map.empty"
    by (simp add: new_store_def)
  have run: "registry_run tagged_registry_env new_store ?calls = Some ?ks"
    by (simp add: AddIdentity_def UpdateIdentity_def RemoveIdentity_def
        AddUpdateIdentityAndHistory_def CIdentityWithHistory_UpdateIdentity_def
        tagged_registry_env_def three_entry_history_def new_store_def)
  have run2: "registry_run tagged_registry_env new_store ?calls2 = Some ?ks2"
    by (simp add: AddIdentity_def UpdateIdentity_def CIdentityWithHistory_UpdateIdentity_def
        tagged_registry_env_def new_store_def)
  have none: "\<forall>w. Call_AddUpdateIdentityAndHistory w \<notin> set ?calls2"
    by simp
  from stored_histories_nonempty [OF empty, of tagged_registry_env ?calls] run
  have "\<forall>k h. mapIdentities ?ks k = Some h \<longrightarrow> ids h \<noteq> []"
    by simp
  then have first: "ids ?h \<noteq> []"
    by simp
  from stored_histories_nonempty [OF empty, of tagged_registry_env ?calls2] run2 none
  have "\<forall>k h. mapIdentities ?ks2 k = Some h \<longrightarrow> length (ids h) \<le> 2"
    by simp
  then have second: "length (ids ?h2) \<le> 2"
    by simp
  from run first run2 second show ?thesis
    by blast
qed

text \<open>
  Claim C10 as stated bounds a stored history by two entries. \<open>AddUpdateIdentityAndHistory\<close>
  stores the record it is given whole: a valid record of three entries is stored with
  its three entries.
\<close>

theorem three_entry_history_counterexample:
  "registry_run tagged_registry_env new_store [Call_AddUpdateIdentityAndHistory three_entry_history]
     = Some (new_store\<lparr>mapIdentities := [GetNameID_self tagged_env identity_A \<mapsto> three_entry_history]\<rparr>)
   \<and> length (ids three_entry_history) = 3"
  by (simp add: AddUpdateIdentityAndHistory_def tagged_registry_env_def three_entry_history_def
      new_store_def)

text \<open>
  Claim C9. On every store that a sequence of registry calls reaches from a store with
  no identity, \<open>CBasicKeyStore::UpdateIdentity\<close> returns \<open>false\<close> exactly when no
  history is filed under \<open>identity.GetNameID()\<close> (it returns \<open>HaveIdentity\<close> of that
  identifier), and when the history's own \<open>UpdateIdentity\<close> returns \<open>false\<close> the
  store's returns \<open>true\<close> all the same, with the store as it was.
\<close>

theorem UpdateIdentity_result:
  assumes "mapIdentities ks0 = Map.empty" and "registry_run r ks0 calls = Some ks"
  shows "(\<exists>ks'. UpdateIdentity (names r) ks identity txId blockHeight
                 = Some (HaveIdentity ks (GetNameID_self (names r) identity), ks'))
       \<and> (\<forall>h h'. mapIdentities ks (GetNameID_self (names r) identity) = Some h
                \<and> CIdentityWithHistory_UpdateIdentity h identity txId blockHeight = Some (False, h')
              \<longrightarrow> UpdateIdentity (names r) ks identity txId blockHeight = Some (True, ks))"
proof -
  have "\<forall>k h. mapIdentities ks0 k = Some h \<longrightarrow> ids h \<noteq> []"
    by (simp add: assms(1))
  from registry_run_nonempty [OF this, of r calls] assms(2)
  have inv: "\<forall>k h. mapIdentities ks k = Some h \<longrightarrow> ids h \<noteq> []"
    by simp
  let ?k = "GetNameID_self (names r) identity"
  have first: "\<exists>ks'. UpdateIdentity (names r) ks identity txId blockHeight
                 = Some (HaveIdentity ks ?k, ks')"
  proof (cases "mapIdentities ks ?k")
    case None
    then show ?thesis
      by (simp add: UpdateIdentity_def HaveIdentity_def)
  next
    case (Some idHistory)
    with inv have "ids idHistory \<noteq> []" by blast
    from UpdateIdentity_history_defined [OF this]
    obtain res h' where
      "CIdentityWithHistory_UpdateIdentity idHistory identity txId blockHeight = Some (res, h')"
      by blast
    with Some show ?thesis
      by (simp add: UpdateIdentity_def HaveIdentity_def)
  qed
  have second: "UpdateIdentity (names r) ks identity txId blockHeight = Some (True, ks)"
    if stored: "mapIdentities ks ?k = Some h"
      and rejected: "CIdentityWithHistory_UpdateIdentity h identity txId blockHeight = Some (False, h')"
    for h h'
  proof -
    from rejected have "h' = h"
      by (rule UpdateIdentity_history_rejects)
    moreover from stored have "(mapIdentities ks)(?k \<mapsto> h) = mapIdentities ks"
      by (rule map_upd_triv)
    ultimately show ?thesis
      using stored rejected by (simp add: UpdateIdentity_def)
  qed
  from first second show ?thesis by blast
qed

theorem UpdateIdentity_result_witness:
  "registry_run tagged_registry_env new_store
       [Call_AddIdentity identity_A [] 100, Call_UpdateIdentity identity_A [] 105]
     = Some (new_store\<lparr>mapIdentities := [GetNameID_self tagged_env identity_A \<mapsto> two_entry_history]\<rparr>)
   \<and> CIdentityWithHistory_UpdateIdentity two_entry_history identity_A [] 50
     = Some (False, two_entry_history)
   \<and> UpdateIdentity tagged_env
       (new_store\<lparr>mapIdentities := [GetNameID_self tagged_env identity_A \<mapsto> two_entry_history]\<rparr>)
       identity_A [] 50
     = Some (True, new_store\<lparr>mapIdentities := [GetNameID_self tagged_env identity_A \<mapsto> two_entry_history]\<rparr>)"
proof -
  let ?ks = "new_store\<lparr>mapIdentities := [GetNameID_self tagged_env identity_A \<mapsto> two_entry_history]\<rparr>"
  have empty: "mapIdentities new_store = Map.empty"
    by (simp add: new_store_def)
  have run: "registry_run tagged_registry_env new_store
       [Call_AddIdentity identity_A [] 100, Call_UpdateIdentity identity_A [] 105] = Some ?ks"
    by (simp add: AddIdentity_def UpdateIdentity_def CIdentityWithHistory_UpdateIdentity_def
        tagged_registry_env_def two_entry_history_def new_store_def)
  have stored: "mapIdentities ?ks (GetNameID_self (names tagged_registry_env) identity_A) = Some two_entry_history"
    by (simp add: tagged_registry_env_def)
  have rejected: "CIdentityWithHistory_UpdateIdentity two_entry_history identity_A [] 50
     = Some (False, two_entry_history)"
    by (simp add: CIdentityWithHistory_UpdateIdentity_def two_entry_history_def)
  from UpdateIdentity_result [OF empty run, of identity_A "[]" 50] stored rejected
  have "UpdateIdentity (names tagged_registry_env) ?ks identity_A [] 50 = Some (True, ?ks)"
    by blast
  then have "UpdateIdentity tagged_env ?ks identity_A [] 50 = Some (True, ?ks)"
    by (simp add: tagged_registry_env_def)
  with run rejected show ?thesis by simp
qed

section \<open>The Sapling chain\<close>

text \<open>
  Claim C5. After \<open>AddSaplingSpendingKey(sk, addr)\<close> has returned \<open>true\<close>,
  \<open>GetSaplingExtendedSpendingKey(addr)\<close> on the store it left succeeds and returns
  \<open>sk\<close>: the address leads to the incoming viewing key, that to the full viewing key,
  and that to the spending key.
\<close>

theorem Sapling_round_trip:
  assumes "AddSaplingSpendingKey z ks sk addr = (True, ks')"
  shows "GetSaplingExtendedSpendingKey ks' addr = Some sk"
proof -
  let ?fvk = "full_viewing_key z (expsk z sk)"
  let ?ivk = "in_viewing_key z ?fvk"
  from assms have ks': "ks' = ks\<lparr>mapSaplingFullViewingKeys := (mapSaplingFullViewingKeys ks)(?ivk \<mapsto> ?fvk),
                             mapSaplingIncomingViewingKeys := (mapSaplingIncomingViewingKeys ks)(addr \<mapsto> ?ivk),
                             mapSaplingSpendingKeys := (mapSaplingSpendingKeys ks)(?fvk \<mapsto> sk)\<rparr>"
    by (simp add: AddSaplingSpendingKey_def AddSaplingFullViewingKey_def
        AddSaplingIncomingViewingKey_def Let_def)
  have "GetSaplingIncomingViewingKey ks' addr = Some ?ivk"
    by (simp add: ks' GetSaplingIncomingViewingKey_def)
  moreover have "GetSaplingFullViewingKey ks' ?ivk = Some ?fvk"
    by (simp add: ks' GetSaplingFullViewingKey_def)
  moreover have "GetSaplingSpendingKey ks' ?fvk = Some sk"
    by (simp add: ks' GetSaplingSpendingKey_def)
  ultimately show ?thesis
    by (simp add: GetSaplingExtendedSpendingKey_def)
qed

theorem Sapling_round_trip_witness:
  "AddSaplingSpendingKey number_sapling_env new_store 5 7
     = (True, snd (AddSaplingSpendingKey number_sapling_env new_store 5 7))
   \<and> GetSaplingExtendedSpendingKey (snd (AddSaplingSpendingKey number_sapling_env new_store 5 7)) 7
     = Some 5"
proof -
  have ok: "AddSaplingSpendingKey number_sapling_env new_store 5 7
     = (True, snd (AddSaplingSpendingKey number_sapling_env new_store 5 7))"
    by (simp add: AddSaplingSpendingKey_def AddSaplingFullViewingKey_def
        AddSaplingIncomingViewingKey_def Let_def)
  from Sapling_round_trip [OF ok] ok show ?thesis by simp
qed

end
